theory Spec2Isabelle
  imports Main "HOL-Library.Word"
begin

unbundle bit_operations_syntax

section \<open>Binary64 arithmetic of the C++ type double\<close>

text \<open>
  The coordinates of \<^verbatim>\<open>mbgl::Point<double>\<close> are IEEE-754 binary64 values. A double is
  modelled by its 64-bit pattern: bit 63 is the sign, bits 62..52 the biased exponent and
  bits 51..0 the fraction. Subtraction and multiplication compute the exact result on
  integers scaled by a power of two and round it to nearest, ties to even, one operation
  at a time (no fused multiply-add).
\<close>

type_synonym double = "64 word"

datatype fp = FNaN | FInf bool | FFin bool nat int

definition decode :: "double \<Rightarrow> fp" where
  "decode w =
     (let s = bit w 63;
          E = unat (take_bit 11 (drop_bit 52 w));
          f = unat (take_bit 52 w)
      in if E = 2047 then (if f = 0 then FInf s else FNaN)
         else if E = 0 then FFin s f (- 1074)
         else FFin s (2 ^ 52 + f) (int E - 1075))"

definition sign_mask :: double where
  "sign_mask = push_bit 63 1"

definition pack :: "bool \<Rightarrow> nat \<Rightarrow> nat \<Rightarrow> double" where
  "pack s E f =
     (if s then sign_mask else 0) OR push_bit 52 (take_bit 11 (of_nat E)) OR
     take_bit 52 (of_nat f)"

definition dNaN :: double where
  "dNaN = pack False 2047 (2 ^ 51)"

definition dInf :: "bool \<Rightarrow> double" where
  "dInf s = pack s 2047 0"

definition dzero :: "bool \<Rightarrow> double" where
  "dzero s = pack s 0 0"

fun bit_length :: "nat \<Rightarrow> nat" where
  "bit_length n = (if n = 0 then 0 else Suc (bit_length (n div 2)))"

declare bit_length.simps [simp del]

text \<open>
  \<open>round_fin s M e\<close> is the double nearest to \<open>(-1)^s * M * 2^e\<close> for \<open>M > 0\<close>:
  \<open>q\<close> is the exponent of the last place kept (53 significant bits, or the
  subnormal spacing \<open>2^-1074\<close>); \<open>rne_shift\<close> drops the bits below it and rounds to
  nearest, a tie to the even significand; a significand that rounds up to \<open>2^53\<close>
  moves to the next binade, and a result beyond the largest finite double is an infinity.
\<close>

definition rne_shift :: "nat \<Rightarrow> nat \<Rightarrow> nat" where
  "rne_shift M sh =
     (let hi = M div 2 ^ sh; lo = M mod 2 ^ sh; half = 2 ^ (sh - 1)
      in if half < lo \<or> (lo = half \<and> odd hi) then hi + 1 else hi)"

definition encode_fin :: "bool \<Rightarrow> nat \<Rightarrow> int \<Rightarrow> double" where
  "encode_fin s mant q =
     (if mant < 2 ^ 52 then pack s 0 mant
      else if 971 < q then dInf s
      else pack s (nat (q + 1075)) (mant - 2 ^ 52))"

definition round_fin :: "bool \<Rightarrow> nat \<Rightarrow> int \<Rightarrow> double" where
  "round_fin s M e =
     (let q = max (e + int (bit_length M) - 53) (- 1074);
          mant = (if q \<le> e then M * 2 ^ nat (e - q) else rne_shift M (nat (q - e)))
      in if mant = 2 ^ 53 then encode_fin s (2 ^ 52) (q + 1) else encode_fin s mant q)"

definition sgn_val :: "bool \<Rightarrow> nat \<Rightarrow> int" where
  "sgn_val s m = (if s then - int m else int m)"

text \<open>
  Subtraction and multiplication on the decoded operands. A zero difference is \<open>-0\<close>
  only for \<open>(-0) - (+0)\<close>; the sign of a product is the exclusive or of the signs.
\<close>

fun fp_sub :: "fp \<Rightarrow> fp \<Rightarrow> double" where
  "fp_sub FNaN _ = dNaN"
| "fp_sub _ FNaN = dNaN"
| "fp_sub (FInf s) (FInf t) = (if s = t then dNaN else dInf s)"
| "fp_sub (FInf s) (FFin _ _ _) = dInf s"
| "fp_sub (FFin _ _ _) (FInf t) = dInf (\<not> t)"
| "fp_sub (FFin s m e) (FFin t n f) =
     (let k = min e f;
          D = sgn_val s m * 2 ^ nat (e - k) - sgn_val t n * 2 ^ nat (f - k)
      in if D = 0 then dzero (s \<and> \<not> t) else round_fin (D < 0) (nat \<bar>D\<bar>) k)"

fun fp_mul :: "fp \<Rightarrow> fp \<Rightarrow> double" where
  "fp_mul FNaN _ = dNaN"
| "fp_mul _ FNaN = dNaN"
| "fp_mul (FInf s) (FInf t) = dInf (s \<noteq> t)"
| "fp_mul (FInf s) (FFin t n _) = (if n = 0 then dNaN else dInf (s \<noteq> t))"
| "fp_mul (FFin s m _) (FInf t) = (if m = 0 then dNaN else dInf (s \<noteq> t))"
| "fp_mul (FFin s m e) (FFin t n f) =
     (if m * n = 0 then dzero (s \<noteq> t) else round_fin (s \<noteq> t) (m * n) (e + f))"

text \<open>The C++ operators \<^verbatim>\<open>-\<close> (binary and unary) and \<^verbatim>\<open>*\<close> on doubles.\<close>

definition dsub :: "double \<Rightarrow> double \<Rightarrow> double" where
  "dsub a b = fp_sub (decode a) (decode b)"

definition dmul :: "double \<Rightarrow> double \<Rightarrow> double" where
  "dmul a b = fp_mul (decode a) (decode b)"

definition dneg :: "double \<Rightarrow> double" where
  "dneg a = a XOR sign_mask"

fun fp_less :: "fp \<Rightarrow> fp \<Rightarrow> bool" where
  "fp_less FNaN _ = False"
| "fp_less _ FNaN = False"
| "fp_less (FInf s) (FInf t) = (s \<and> \<not> t)"
| "fp_less (FInf s) (FFin _ _ _) = s"
| "fp_less (FFin _ _ _) (FInf t) = (\<not> t)"
| "fp_less (FFin s m e) (FFin t n f) =
     (let k = min e f in sgn_val s m * 2 ^ nat (e - k) < sgn_val t n * 2 ^ nat (f - k))"

fun fp_eq :: "fp \<Rightarrow> fp \<Rightarrow> bool" where
  "fp_eq FNaN _ = False"
| "fp_eq _ FNaN = False"
| "fp_eq (FInf s) (FInf t) = (s = t)"
| "fp_eq (FInf _) (FFin _ _ _) = False"
| "fp_eq (FFin _ _ _) (FInf _) = False"
| "fp_eq (FFin s m e) (FFin t n f) =
     (let k = min e f in sgn_val s m * 2 ^ nat (e - k) = sgn_val t n * 2 ^ nat (f - k))"

text \<open>The C++ operators \<^verbatim>\<open><\<close>, \<^verbatim>\<open>>\<close>, \<^verbatim>\<open><=\<close> and \<^verbatim>\<open>==\<close> on doubles.\<close>

definition dlt :: "double \<Rightarrow> double \<Rightarrow> bool" where
  "dlt a b = fp_less (decode a) (decode b)"

definition dgt :: "double \<Rightarrow> double \<Rightarrow> bool" where
  "dgt a b = fp_less (decode b) (decode a)"

definition dle :: "double \<Rightarrow> double \<Rightarrow> bool" where
  "dle a b = (fp_less (decode a) (decode b) \<or> fp_eq (decode a) (decode b))"

definition deq :: "double \<Rightarrow> double \<Rightarrow> bool" where
  "deq a b = fp_eq (decode a) (decode b)"

definition is_nan :: "double \<Rightarrow> bool" where
  "is_nan a = (decode a = FNaN)"

text \<open>
  \<open>int_value a\<close> is the integer that the double \<open>a\<close> holds, if it holds one.
\<close>

fun fp_int_value :: "fp \<Rightarrow> int option" where
  "fp_int_value (FFin s m e) =
     (if 0 \<le> e then Some (sgn_val s m * 2 ^ nat e)
      else if 2 ^ nat (- e) dvd m then Some (sgn_val s m div 2 ^ nat (- e))
      else None)"
| "fp_int_value _ = None"

definition int_value :: "double \<Rightarrow> int option" where
  "int_value a = fp_int_value (decode a)"

section \<open>Winding classifier\<close>

record point =
  x :: double
  y :: double

definition isLeft :: "point \<Rightarrow> point \<Rightarrow> point \<Rightarrow> double" where
  "isLeft P0 P1 P2 =
     dsub (dmul (dsub (x P1) (x P0)) (dsub (y P2) (y P0)))
          (dmul (dsub (x P2) (x P0)) (dsub (y P1) (y P0)))"


section \<open>Point-in-polygon engine\<close>

text \<open>
  Undefined behaviour of the C++ code is a value of the model: indexing a
  \<^verbatim>\<open>std::vector\<close> outside its bounds and overflowing the \<^verbatim>\<open>int\<close> counter.
\<close>

datatype error = OutOfBounds | SignedOverflow

type_synonym ring = "point list"
type_synonym polygon = "ring list"

text \<open>\<^verbatim>\<open>size - 1\<close> on the unsigned 64-bit \<^verbatim>\<open>std::size_t\<close>: it wraps for \<open>size = 0\<close>.\<close>

definition size_minus_1 :: "nat \<Rightarrow> nat" where
  "size_minus_1 n = (n + 2 ^ 64 - 1) mod 2 ^ 64"

text \<open>\<^verbatim>\<open>++wn\<close> and \<^verbatim>\<open>--wn\<close> on a 32-bit \<^verbatim>\<open>int\<close>.\<close>

definition incr :: "int \<Rightarrow> error + int" where
  "incr wn = (if wn = 2 ^ 31 - 1 then Inl SignedOverflow else Inr (wn + 1))"

definition decr :: "int \<Rightarrow> error + int" where
  "decr wn = (if wn = - (2 ^ 31) then Inl SignedOverflow else Inr (wn - 1))"

text \<open>
  One edge of the loop body (lines 26 to 38): \<open>a\<close> is \<^verbatim>\<open>poly[i]\<close> and \<open>b\<close> is
  \<^verbatim>\<open>poly[i + 1]\<close>.
\<close>

definition edge_body :: "point \<Rightarrow> point \<Rightarrow> point \<Rightarrow> int \<Rightarrow> error + int" where
  "edge_body point a b wn =
     (if dle (y a) (y point) then
        (if dgt (y b) (y point) then
           (if dgt (isLeft a b point) 0 then incr wn else Inr wn)
         else Inr wn)
      else
        (if dle (y b) (y point) then
           (if dlt (isLeft a b point) 0 then decr wn else Inr wn)
         else Inr wn))"

text \<open>
  The inner \<^verbatim>\<open>for\<close> loop (line 25) from index \<open>i\<close> with counter \<open>wn\<close>. Both
  \<^verbatim>\<open>poly[i]\<close> and \<^verbatim>\<open>poly[i + 1]\<close> are read in every iteration.
\<close>

function edge_loop :: "point \<Rightarrow> ring \<Rightarrow> nat \<Rightarrow> int \<Rightarrow> error + int" where
  "edge_loop point poly i wn =
     (if i < size_minus_1 (length poly) then
        (if length poly \<le> i then Inl OutOfBounds
         else if length poly \<le> i + 1 then Inl OutOfBounds
         else (case edge_body point (poly ! i) (poly ! (i + 1)) wn of
                 Inl e \<Rightarrow> Inl e
               | Inr wn' \<Rightarrow> edge_loop point poly (i + 1) wn'))
      else Inr wn)"
  by pat_completeness auto
termination
  by (relation "measure (\<lambda>(point, poly, i, wn). length poly - i)") auto

declare edge_loop.simps [simp del]

text \<open>The outer loop over the rings (lines 22 to 44), entered with counter \<open>wn\<close>.\<close>

fun rings_loop :: "point \<Rightarrow> polygon \<Rightarrow> int \<Rightarrow> error + bool" where
  "rings_loop point [] wn = Inr (wn \<noteq> 0)"
| "rings_loop point (poly # polys) wn =
     (case edge_loop point poly 0 wn of
        Inl e \<Rightarrow> Inl e
      | Inr wn' \<Rightarrow> if wn' \<noteq> 0 then Inr True else rings_loop point polys wn')"

definition pointWithinPolygons :: "point \<Rightarrow> polygon \<Rightarrow> error + bool" where
  "pointWithinPolygons point polys = rings_loop point polys 0"

subsection \<open>The engine as the specification words it\<close>

text \<open>
  The winding number as the specification states it: an upward crossing with the point
  strictly left of the edge adds one, a downward crossing with the point strictly right
  of it subtracts one, over the edges \<open>(i, i + 1)\<close> for \<open>i\<close> from \<open>0\<close> to
  \<open>size - 2\<close>; after each ring a non-zero winding number answers "inside".
\<close>

definition upward_crossing :: "point \<Rightarrow> point \<Rightarrow> point \<Rightarrow> bool" where
  "upward_crossing point a b \<longleftrightarrow> dle (y a) (y point) \<and> dgt (y b) (y point)"

definition downward_crossing :: "point \<Rightarrow> point \<Rightarrow> point \<Rightarrow> bool" where
  "downward_crossing point a b \<longleftrightarrow> dgt (y a) (y point) \<and> dle (y b) (y point)"

definition spec_edge :: "point \<Rightarrow> ring \<Rightarrow> int \<Rightarrow> nat \<Rightarrow> int" where
  "spec_edge point poly wn i =
     (let a = poly ! i; b = poly ! (i + 1)
      in if upward_crossing point a b \<and> dgt (isLeft a b point) 0 then wn + 1
         else if downward_crossing point a b \<and> dlt (isLeft a b point) 0 then wn - 1
         else wn)"

definition spec_ring :: "point \<Rightarrow> ring \<Rightarrow> int \<Rightarrow> int" where
  "spec_ring point poly wn = foldl (spec_edge point poly) wn [0..<length poly - 1]"

fun spec_rings :: "point \<Rightarrow> polygon \<Rightarrow> int \<Rightarrow> bool" where
  "spec_rings point [] wn = (wn \<noteq> 0)"
| "spec_rings point (poly # polys) wn =
     (if spec_ring point poly wn \<noteq> 0 then True
      else spec_rings point polys (spec_ring point poly wn))"

definition spec_pointWithinPolygons :: "point \<Rightarrow> polygon \<Rightarrow> bool" where
  "spec_pointWithinPolygons point polys = spec_rings point polys 0"

section \<open>Geometry adapter\<close>

text \<open>
  The variants \<^verbatim>\<open>mapbox::geometry::geometry<double>\<close> and \<^verbatim>\<open>mbgl::GeoJSON\<close>. Of a
  GeoJSON feature only the geometry is kept: the code reads nothing else.
\<close>

datatype geometry =
    G_empty
  | G_point point
  | G_line_string "point list"
  | G_polygon polygon
  | G_multi_point "point list"
  | G_multi_line_string "point list list"
  | G_multi_polygon "polygon list"
  | G_geometry_collection "geometry list"

datatype GeoJSON =
    GJ_geometry geometry
  | GJ_feature geometry
  | GJ_feature_collection "geometry list"

text \<open>The loop over a multi-point (lines 60 to 67), entered with \<open>result\<close>.\<close>

fun points_loop :: "point list \<Rightarrow> polygon \<Rightarrow> bool \<Rightarrow> error + bool" where
  "points_loop [] polygons result = Inr result"
| "points_loop (p # points) polygons result =
     (case pointWithinPolygons p polygons of
        Inl e \<Rightarrow> Inl e
      | Inr r \<Rightarrow> if \<not> r then Inr r else points_loop points polygons r)"

text \<open>
  \<^verbatim>\<open>convertGeometry\<close> is declared in \<^verbatim>\<open>mbgl/tile/geometry_tile_data.hpp\<close>; it is a
  parameter, as are the types of the tile feature and of the canonical tile id.
\<close>

definition pointsWithinPolygons ::
    "('f \<Rightarrow> 'c \<Rightarrow> geometry) \<Rightarrow> 'f \<Rightarrow> 'c \<Rightarrow> GeoJSON \<Rightarrow> error + bool" where
  "pointsWithinPolygons convertGeometry feature canonical geoJson =
     (case geoJson of
        GJ_geometry geometrySet \<Rightarrow>
          (case geometrySet of
             G_polygon polygons \<Rightarrow>
               (case convertGeometry feature canonical of
                  G_point point \<Rightarrow> pointWithinPolygons point polygons
                | G_multi_point points \<Rightarrow> points_loop points polygons False
                | _ \<Rightarrow> Inr False)
           | _ \<Rightarrow> Inr False)
      | _ \<Rightarrow> Inr False)"

section \<open>Expression node\<close>

text \<open>
  Modelled from the spec: the configuration value \<^verbatim>\<open>Convertible\<close> with its accessors
  \<^verbatim>\<open>isArray\<close>, \<^verbatim>\<open>arrayLength\<close>, \<^verbatim>\<open>arrayMember\<close>, \<^verbatim>\<open>isObject\<close>, \<^verbatim>\<open>objectMember\<close>
  and \<^verbatim>\<open>toString\<close> (\<^verbatim>\<open>mbgl/style/conversion_impl.hpp\<close>), a JSON-like value;
  \<^verbatim>\<open>mbgl::Value\<close>, which \<^verbatim>\<open>serialize\<close> returns, is the same kind of value.
  \<^verbatim>\<open>arrayLength\<close> returns a \<^verbatim>\<open>std::size_t\<close>.
\<close>

datatype Convertible =
    CNull
  | CBool bool
  | CNumber double
  | CString string
  | CArray "Convertible list"
  | CObject "(string \<times> Convertible) list"

fun isArray :: "Convertible \<Rightarrow> bool" where
  "isArray (CArray _) = True"
| "isArray _ = False"

fun arrayLength :: "Convertible \<Rightarrow> 64 word" where
  "arrayLength (CArray vs) = of_nat (length vs)"
| "arrayLength _ = 0"

fun arrayMember :: "Convertible \<Rightarrow> nat \<Rightarrow> Convertible" where
  "arrayMember (CArray vs) i = (if i < length vs then vs ! i else CNull)"
| "arrayMember _ i = CNull"

fun isObject :: "Convertible \<Rightarrow> bool" where
  "isObject (CObject _) = True"
| "isObject _ = False"

fun objectMember :: "Convertible \<Rightarrow> string \<Rightarrow> Convertible option" where
  "objectMember (CObject ms) name = map_of ms name"
| "objectMember _ name = None"

fun toString :: "Convertible \<Rightarrow> string option" where
  "toString (CString s) = Some s"
| "toString _ = None"

text \<open>
  Modelled from the spec: \<^verbatim>\<open>util::toString\<close> (\<^verbatim>\<open>mbgl/util/string.hpp\<close>) on a
  \<^verbatim>\<open>std::size_t\<close> writes the number in decimal.
\<close>

function decimal :: "nat \<Rightarrow> string" where
  "decimal n =
     (if n < 10 then [''0123456789'' ! n]
      else decimal (n div 10) @ [''0123456789'' ! (n mod 10)])"
  by pat_completeness auto
termination
  by (relation "measure (\<lambda>n. n)") auto

declare decimal.simps [simp del]

text \<open>
  Modelled from the spec: the parsing context's error sink. \<^verbatim>\<open>ctx.error(message)\<close>
  appends the message to the errors reported so far.
\<close>

type_synonym ParsingContext = "string list"

definition ctx_error :: "ParsingContext \<Rightarrow> string \<Rightarrow> ParsingContext" where
  "ctx_error ctx message = ctx @ [message]"

record Error =
  message :: string

definition requires_polygon :: string where
  "requires_polygon =
     '''Within' expression requires valid geojson source that contains polygon geometry type.''"

text \<open>
  \<^verbatim>\<open>toGeoJSON\<close> (\<^verbatim>\<open>mbgl/style/conversion_impl.hpp\<close>) is a parameter: it returns the
  converted GeoJSON, if any, and the error it wrote to its out-parameter.
\<close>

definition parseValue ::
    "(Convertible \<Rightarrow> GeoJSON option \<times> Error) \<Rightarrow> Convertible \<Rightarrow> ParsingContext
       \<Rightarrow> GeoJSON option \<times> ParsingContext" where
  "parseValue toGeoJSON value' ctx =
     (if isObject value' then
        (case objectMember value' ''type'' of
           Some geometryType \<Rightarrow>
             (case toString geometryType of
                Some type \<Rightarrow>
                  if type = ''Polygon'' then
                    (case toGeoJSON value' of
                       (geojson, error) \<Rightarrow>
                         if geojson \<noteq> None \<and> message error = [] then (geojson, ctx)
                         else (None, ctx_error (ctx_error ctx (message error)) requires_polygon))
                  else (None, ctx_error ctx requires_polygon)
              | None \<Rightarrow> (None, ctx_error ctx requires_polygon))
         | None \<Rightarrow> (None, ctx_error ctx requires_polygon))
      else (None, ctx_error ctx requires_polygon))"

text \<open>The node: \<^verbatim>\<open>Within\<close> owns \<^verbatim>\<open>geoJSONSource\<close>.\<close>

record Within =
  geoJSONSource :: GeoJSON

definition parse ::
    "(Convertible \<Rightarrow> GeoJSON option \<times> Error) \<Rightarrow> Convertible \<Rightarrow> ParsingContext
       \<Rightarrow> Within option \<times> ParsingContext" where
  "parse toGeoJSON value ctx =
     (if isArray value then
        (if arrayLength value \<noteq> 2 then
           (None, ctx_error ctx
              ('''Within' expression requires exactly one argument, but found '' @
               decimal (unat (arrayLength value - 1)) @ '' instead.''))
         else
           (case parseValue toGeoJSON (arrayMember value 1) ctx of
              (None, ctx') \<Rightarrow> (None, ctx')
            | (Some parsedValue, ctx') \<Rightarrow> (Some \<lparr>geoJSONSource = parsedValue\<rparr>, ctx')))
      else (None, ctx))"

text \<open>
  Modelled from the spec: the geometry kind of a tile feature, \<^verbatim>\<open>FeatureType\<close>, and
  the log of \<^verbatim>\<open>mbgl::Log\<close>, a list of records in the order written.
\<close>

datatype FeatureType = FT_Unknown | FT_Point | FT_LineString | FT_Polygon

datatype Severity = Debug | Info | Warning | Error

datatype Event = General

type_synonym Log = "(Severity \<times> Event \<times> string) list"

record ('f, 'c) EvaluationContext =
  feature :: "'f option"
  canonical :: "'c option"

text \<open>
  \<^verbatim>\<open>Within::evaluate\<close>; \<open>getType\<close> is the feature's virtual \<^verbatim>\<open>getType()\<close>. The result
  is the value returned, or the undefined behaviour met, and the log.
\<close>

definition evaluate ::
    "('f \<Rightarrow> FeatureType) \<Rightarrow> ('f \<Rightarrow> 'c \<Rightarrow> geometry) \<Rightarrow> Within \<Rightarrow> ('f, 'c) EvaluationContext
       \<Rightarrow> Log \<Rightarrow> (error + bool) \<times> Log" where
  "evaluate getType convertGeometry node params log =
     (case feature params of
        None \<Rightarrow> (Inr False, log)
      | Some f \<Rightarrow>
          (case canonical params of
             None \<Rightarrow> (Inr False, log)
           | Some c \<Rightarrow>
               if getType f = FT_Point then
                 (pointsWithinPolygons convertGeometry f c (geoJSONSource node), log)
               else
                 (Inr False,
                  log @ [(Warning, General,
                          ''Within expression currently only support 'Point' geometry type'')])))"

text \<open>
  \<^verbatim>\<open>Within::serialize\<close>. Modelled from the spec: \<^verbatim>\<open>getOperator()\<close> is the operator
  tag \<^verbatim>\<open>"within"\<close>. \<^verbatim>\<open>mapbox::geojson::stringify\<close>, which returns the text of the
  GeoJSON as a string, is a parameter.
\<close>

definition getOperator :: string where
  "getOperator = ''within''"

definition serialize :: "(GeoJSON \<Rightarrow> string) \<Rightarrow> Within \<Rightarrow> Convertible" where
  "serialize stringify node =
     CArray [CString getOperator, CString (stringify (geoJSONSource node))]"

section \<open>Example inputs\<close>

definition ex_failing_toGeoJSON :: "Convertible \<Rightarrow> GeoJSON option \<times> Error" where
  "ex_failing_toGeoJSON v = (None, \<lparr>message = ''coordinates missing''\<rparr>)"

definition ex_toGeoJSON :: "Convertible \<Rightarrow> GeoJSON option \<times> Error" where
  "ex_toGeoJSON v = (Some (GJ_geometry (G_polygon [])), \<lparr>message = []\<rparr>)"

definition ex_polygon_value :: Convertible where
  "ex_polygon_value = CObject [(''type'', CString ''Polygon''), (''coordinates'', CArray [])]"

text \<open>
  The triangle \<open>(1,1), (5,2), (2,6), (1,1)\<close> with the points \<open>(3,3)\<close> inside and
  \<open>(6,3)\<close> outside it, and the points \<open>(1,2)\<close>, \<open>(2,3)\<close> and \<open>(1.5,0.7)\<close>.
\<close>

definition ex_triangle :: ring where
  "ex_triangle =
     [\<lparr>x = 0x3FF0000000000000, y = 0x3FF0000000000000\<rparr>,
      \<lparr>x = 0x4014000000000000, y = 0x4000000000000000\<rparr>,
      \<lparr>x = 0x4000000000000000, y = 0x4018000000000000\<rparr>,
      \<lparr>x = 0x3FF0000000000000, y = 0x3FF0000000000000\<rparr>]"

definition ex_inside :: point where
  "ex_inside = \<lparr>x = 0x4008000000000000, y = 0x4008000000000000\<rparr>"

definition ex_outside :: point where
  "ex_outside = \<lparr>x = 0x4018000000000000, y = 0x4008000000000000\<rparr>"

definition ex_P0 :: point where
  "ex_P0 = \<lparr>x = 0x3FF0000000000000, y = 0x4000000000000000\<rparr>"

definition ex_P1 :: point where
  "ex_P1 = \<lparr>x = 0x4000000000000000, y = 0x4008000000000000\<rparr>"

definition ex_P2 :: point where
  "ex_P2 = \<lparr>x = 0x3FF8000000000000, y = 0x3FE6666666666666\<rparr>"

text \<open>
  A tile feature given by its geometry in the coordinates of the polygon, on a tile whose
  id carries no information.
\<close>

definition ex_convertGeometry :: "geometry \<Rightarrow> unit \<Rightarrow> geometry" where
  "ex_convertGeometry f c = f"

fun ex_getType :: "geometry \<Rightarrow> FeatureType" where
  "ex_getType (G_point _) = FT_Point"
| "ex_getType (G_multi_point _) = FT_Point"
| "ex_getType (G_line_string _) = FT_LineString"
| "ex_getType (G_multi_line_string _) = FT_LineString"
| "ex_getType (G_polygon _) = FT_Polygon"
| "ex_getType (G_multi_polygon _) = FT_Polygon"
| "ex_getType _ = FT_Unknown"

definition ex_node :: Within where
  "ex_node = \<lparr>geoJSONSource = GJ_geometry (G_polygon [ex_triangle])\<rparr>"

definition ex_node_empty_ring :: Within where
  "ex_node_empty_ring = \<lparr>geoJSONSource = GJ_geometry (G_polygon [[]])\<rparr>"

definition ex_params_point :: "(geometry, unit) EvaluationContext" where
  "ex_params_point = \<lparr>feature = Some (G_point ex_inside), canonical = Some ()\<rparr>"

definition ex_params_line :: "(geometry, unit) EvaluationContext" where
  "ex_params_line = \<lparr>feature = Some (G_line_string [ex_inside, ex_outside]), canonical = Some ()\<rparr>"

definition ex_params_no_tile :: "(geometry, unit) EvaluationContext" where
  "ex_params_no_tile = \<lparr>feature = Some (G_point ex_inside), canonical = None\<rparr>"

section \<open>Properties of the double arithmetic\<close>

subsection \<open>Evaluation on numerals\<close>

lemma bit_length_0: "bit_length 0 = 0" by (simp add: bit_length.simps)

lemma bit_length_1: "bit_length 1 = 1" by (simp add: bit_length.simps)

lemma bit_length_Suc0: "bit_length (Suc 0) = Suc 0" by (simp add: bit_length.simps)

lemma bit_length_One: "bit_length (numeral Num.One) = 1" by (simp add: bit_length.simps)

lemma bit_length_Bit0: "bit_length (numeral (Num.Bit0 k)) = Suc (bit_length (numeral k))"
  by (subst bit_length.simps) simp

lemma bit_length_Bit1: "bit_length (numeral (Num.Bit1 k)) = Suc (bit_length (numeral k))"
  by (subst bit_length.simps) simp

lemmas bit_length_eval = bit_length_Suc0 bit_length_0 bit_length_1 bit_length_One bit_length_Bit0 bit_length_Bit1

lemmas fp_eval = dsub_def dmul_def dle_def dgt_def dlt_def deq_def dneg_def decode_def round_fin_def
  rne_shift_def encode_fin_def pack_def sign_mask_def dInf_def dzero_def dNaN_def sgn_val_def bit_length_eval

subsection \<open>Not-a-number and the order\<close>

lemma decode_dNaN: "decode dNaN = FNaN"
  by (simp add: decode_def dNaN_def pack_def)

lemma is_nan_dNaN: "is_nan dNaN"
  by (simp add: is_nan_def decode_dNaN)

lemma dsub_nan: "is_nan a \<or> is_nan b \<Longrightarrow> is_nan (dsub a b)"
  by (cases "decode a"; cases "decode b") (auto simp: is_nan_def dsub_def decode_dNaN)

lemma dmul_nan: "is_nan a \<or> is_nan b \<Longrightarrow> is_nan (dmul a b)"
  by (cases "decode a"; cases "decode b") (auto simp: is_nan_def dmul_def decode_dNaN)

lemma isLeft_nan: "is_nan (y P0) \<or> is_nan (y P2) \<Longrightarrow> is_nan (isLeft P0 P1 P2)"
proof -
  assume "is_nan (y P0) \<or> is_nan (y P2)"
  then have "is_nan (dsub (y P2) (y P0))" by (auto intro: dsub_nan)
  then have "is_nan (dmul (dsub (x P1) (x P0)) (dsub (y P2) (y P0)))" by (auto intro: dmul_nan)
  then show ?thesis unfolding isLeft_def by (auto intro: dsub_nan)
qed

lemma fp_less_asym: "fp_less u v \<Longrightarrow> \<not> fp_less v u \<and> \<not> fp_eq v u"
  by (cases u; cases v) (auto simp: Let_def min_def split: if_splits)

lemma fp_total: "u \<noteq> FNaN \<Longrightarrow> v \<noteq> FNaN \<Longrightarrow> fp_less u v \<or> fp_eq u v \<or> fp_less v u"
  by (cases u; cases v) (auto simp: Let_def min_def split: if_splits)

lemma fp_eq_sym: "fp_eq u v \<Longrightarrow> fp_eq v u"
  by (cases u; cases v) (auto simp: Let_def min_def split: if_splits)

lemma fp_eq_refl: "u \<noteq> FNaN \<Longrightarrow> fp_eq u u"
  by (cases u) simp_all

lemma dle_not_dgt: "dle a b \<Longrightarrow> \<not> dgt a b"
  using fp_less_asym fp_eq_sym by (auto simp: dle_def dgt_def)

lemma not_dle_dgt: "\<not> dle a b \<Longrightarrow> \<not> is_nan a \<Longrightarrow> \<not> is_nan b \<Longrightarrow> dgt a b"
  using fp_total [of "decode a" "decode b"] by (auto simp: dle_def dgt_def is_nan_def)

lemma dlt_not_nan: "dlt a b \<Longrightarrow> \<not> is_nan a"
  by (cases "decode a") (auto simp: dlt_def is_nan_def)

lemma deq_refl: "\<not> is_nan a \<Longrightarrow> deq a a"
  by (simp add: deq_def is_nan_def fp_eq_refl)

subsection \<open>Negation\<close>

lemma bit_sign_mask: "bit sign_mask n \<longleftrightarrow> n = 63"
  unfolding sign_mask_def
  by (simp only: bit_push_bit_iff bit_1_iff possible_bit_word) auto

lemma dneg_pack: "dneg (pack s E f) = pack (\<not> s) E f"
  unfolding dneg_def pack_def
  by (rule bit_word_eqI) (auto simp: bit_simps bit_sign_mask)

lemma dneg_dInf: "dneg (dInf s) = dInf (\<not> s)"
  by (simp add: dInf_def dneg_pack)

lemma dneg_dzero: "dneg (dzero s) = dzero (\<not> s)"
  by (simp add: dzero_def dneg_pack)

lemma dneg_encode_fin: "dneg (encode_fin s mant q) = encode_fin (\<not> s) mant q"
  by (simp add: encode_fin_def dneg_pack dneg_dInf)

lemma dneg_round_fin: "dneg (round_fin s M e) = round_fin (\<not> s) M e"
  by (simp add: round_fin_def Let_def dneg_encode_fin)

lemma decode_dInf: "decode (dInf s) = FInf s"
  by (cases s) (simp_all add: decode_def dInf_def pack_def sign_mask_def)

lemma decode_dzero: "decode (dzero s) = FFin s 0 (- 1074)"
  by (cases s) (simp_all add: decode_def dzero_def pack_def sign_mask_def)

lemma deq_dzero: "deq (dzero s) (dzero t)"
  by (simp add: deq_def decode_dzero sgn_val_def)

lemma fp_sub_swap:
  assumes "\<not> is_nan (fp_sub u v)"
  shows "deq (fp_sub u v) (dneg (fp_sub v u))"
proof (cases u)
  case FNaN
  with assms show ?thesis by (simp add: is_nan_dNaN)
next
  case (FInf s)
  show ?thesis
  proof (cases v)
    case FNaN
    with assms FInf show ?thesis by (simp add: is_nan_dNaN)
  next
    case (FInf t)
    with assms \<open>u = FInf s\<close> have "s \<noteq> t" by (auto simp: is_nan_dNaN split: if_splits)
    then have "dInf (\<not> t) = dInf s" by auto
    with FInf \<open>u = FInf s\<close> \<open>s \<noteq> t\<close> show ?thesis
      by (auto simp: dneg_dInf deq_def decode_dInf)
  next
    case (FFin t n f)
    with \<open>u = FInf s\<close> show ?thesis by (simp add: dneg_dInf deq_def decode_dInf)
  qed
next
  case (FFin s m e)
  show ?thesis
  proof (cases v)
    case FNaN
    with assms FFin show ?thesis by (simp add: is_nan_dNaN)
  next
    case (FInf t)
    with FFin show ?thesis by (simp add: dneg_dInf deq_def decode_dInf)
  next
    case v: (FFin t n f)
    define k where "k = min e f"
    define D where "D = sgn_val s m * 2 ^ nat (e - k) - sgn_val t n * 2 ^ nat (f - k)"
    have uv: "fp_sub u v = (if D = 0 then dzero (s \<and> \<not> t) else round_fin (D < 0) (nat \<bar>D\<bar>) k)"
      using FFin v by (simp add: Let_def D_def k_def)
    define D' where "D' = sgn_val t n * 2 ^ nat (f - k) - sgn_val s m * 2 ^ nat (e - k)"
    have "fp_sub v u = (if D' = 0 then dzero (t \<and> \<not> s) else round_fin (D' < 0) (nat \<bar>D'\<bar>) k)"
      using FFin v by (simp add: Let_def D'_def k_def min.commute)
    moreover have "D' = - D" by (simp add: D_def D'_def)
    ultimately have vu: "fp_sub v u =
        (if D = 0 then dzero (t \<and> \<not> s) else round_fin (- D < 0) (nat \<bar>D\<bar>) k)"
      by simp
    show ?thesis
    proof (cases "D = 0")
      case True
      then show ?thesis by (simp add: uv vu dneg_dzero deq_dzero)
    next
      case False
      then have "(\<not> (- D < 0)) = (D < 0)" by auto
      with False have "dneg (fp_sub v u) = fp_sub u v"
        by (simp add: uv vu dneg_round_fin)
      with assms show ?thesis by (simp add: deq_refl)
    qed
  qed
qed

subsection \<open>Exact arithmetic on integers\<close>

lemma bit_length_pos: "0 < n \<Longrightarrow> 0 < bit_length n"
  by (subst bit_length.simps) simp

lemma bit_length_double: "0 < n \<Longrightarrow> bit_length (2 * n) = Suc (bit_length n)"
  by (subst bit_length.simps) simp

lemma bit_length_shift: "0 < n \<Longrightarrow> bit_length (n * 2 ^ k) = bit_length n + k"
proof (induction k)
  case 0
  then show ?case by simp
next
  case (Suc k)
  have eq: "n * 2 ^ Suc k = 2 * (n * 2 ^ k)" by simp
  have pos: "0 < n * 2 ^ k" using Suc.prems by simp
  have "bit_length (2 * (n * 2 ^ k)) = Suc (bit_length (n * 2 ^ k))"
    using pos by (rule bit_length_double)
  also have "\<dots> = Suc (bit_length n + k)" using Suc by simp
  finally show ?case unfolding eq by simp
qed

lemma bit_length_bounds: "0 < n \<Longrightarrow> 2 ^ (bit_length n - 1) \<le> n \<and> n < 2 ^ bit_length n"
proof (induction n rule: bit_length.induct)
  case (1 n)
  show ?case
  proof (cases "n div 2 = 0")
    case True
    with 1 have "n = 1" by auto
    then show ?thesis by (simp add: bit_length.simps)
  next
    case False
    define h where "h = n div 2"
    define a :: nat where "a = 2 ^ (bit_length h - 1)"
    from False have pos: "0 < h" by (simp add: h_def)
    with 1 have IH: "a \<le> h" "h < 2 ^ bit_length h"
      by (auto simp: h_def a_def)
    have bl: "bit_length n = Suc (bit_length h)"
      using 1(2) unfolding h_def by (subst bit_length.simps) simp
    have "0 < bit_length h" using pos by (rule bit_length_pos)
    then have p: "(2::nat) ^ bit_length h = 2 * a"
      unfolding a_def by (cases "bit_length h") simp_all
    have e1: "(2::nat) ^ (bit_length n - 1) = 2 * a" using p by (simp add: bl)
    have e2: "(2::nat) ^ bit_length n = 4 * a" using p by (simp add: bl)
    have "2 * h \<le> n" and "n < 2 * h + 2" unfolding h_def by presburger+
    with IH p show ?thesis unfolding e1 e2 by linarith
  qed
qed

lemma field_sign: "bit (pack s E f) 63 = s"
  by (auto simp: pack_def bit_simps bit_sign_mask)

lemma field_exponent: "take_bit 11 (drop_bit 52 (pack s E f)) = take_bit 11 (of_nat E)"
  unfolding pack_def
  by (rule bit_word_eqI) (auto simp: bit_simps bit_sign_mask)

lemma field_fraction: "take_bit 52 (pack s E f) = take_bit 52 (of_nat f)"
  unfolding pack_def
  by (rule bit_word_eqI) (auto simp: bit_simps bit_sign_mask)

lemma unat_take_bit_of_nat:
  assumes "n < 2 ^ k" and "k \<le> 64"
  shows "unat (take_bit k (of_nat n :: 64 word)) = n"
proof -
  have "(2::nat) ^ k \<le> 2 ^ 64" using assms(2) by (rule power_increasing) simp
  with assms(1) have "n < 2 ^ 64" by simp
  then have "unat (of_nat n :: 64 word) = n" by (simp add: unat_of_nat)
  moreover have "take_bit k n = n" using assms(1) by (simp add: take_bit_nat_eq_self)
  ultimately show ?thesis by (simp add: unsigned_take_bit_eq)
qed

lemma decode_pack_normal:
  assumes "0 < E" and "E < 2047" and "f < 2 ^ 52"
  shows "decode (pack s E f) = FFin s (2 ^ 52 + f) (int E - 1075)"
proof -
  have "E < 2 ^ 11" using assms by simp
  then have e: "unat (take_bit 11 (of_nat E :: 64 word)) = E"
    by (rule unat_take_bit_of_nat) simp
  have f: "unat (take_bit 52 (of_nat f :: 64 word)) = f"
    using assms(3) by (rule unat_take_bit_of_nat) simp
  show ?thesis
    using assms by (simp add: decode_def field_sign field_exponent field_fraction e f)
qed

lemma decode_exponent:
  assumes "decode a = FFin s m e"
  shows "- 1074 \<le> e"
proof -
  define E where "E = unat (take_bit 11 (drop_bit 52 a))"
  from assms have "e = - 1074 \<or> (0 < E \<and> e = int E - 1075)"
    unfolding decode_def Let_def E_def [symmetric] by (auto split: if_splits)
  then show ?thesis by auto
qed

lemma decode_dneg:
  "decode (dneg a) =
     (case decode a of FNaN \<Rightarrow> FNaN | FInf s \<Rightarrow> FInf (\<not> s) | FFin s m e \<Rightarrow> FFin (\<not> s) m e)"
proof -
  have s: "bit (dneg a) 63 = (\<not> bit a 63)"
    by (simp add: dneg_def bit_simps bit_sign_mask)
  have e: "take_bit 11 (drop_bit 52 (dneg a)) = take_bit 11 (drop_bit 52 a)"
    unfolding dneg_def by (rule bit_word_eqI) (auto simp: bit_simps bit_sign_mask)
  have f: "take_bit 52 (dneg a) = take_bit 52 a"
    unfolding dneg_def by (rule bit_word_eqI) (auto simp: bit_simps bit_sign_mask)
  show ?thesis by (simp add: decode_def s e f Let_def)
qed

text \<open>
  A non-zero value \<open>D * 2^k\<close> that is an integer \<open>v\<close> below \<open>2^53\<close> in magnitude is
  not changed by rounding; \<open>c\<close> scales both sides to natural numbers.
\<close>

lemma round_fin_exact:
  assumes N: "0 < N" "N < 2 ^ 53"
    and c: "53 \<le> c" "0 \<le> k + int c"
    and eq: "M * 2 ^ nat (k + int c) = N * 2 ^ c"
  shows "round_fin s M k = pack s (bit_length N + 1022) (N * 2 ^ (53 - bit_length N) - 2 ^ 52)"
proof -
  define b where "b = bit_length N"
  define mN where "mN = N * 2 ^ (53 - b)"
  have Mpos: "0 < M" using eq N by (cases "M = 0") auto
  have b1: "0 < b" unfolding b_def using N(1) by (rule bit_length_pos)
  have bb: "2 ^ (b - 1) \<le> N" "N < 2 ^ b"
    unfolding b_def using bit_length_bounds [OF N(1)] by auto
  have b53: "b \<le> 53"
  proof (rule ccontr)
    assume "\<not> b \<le> 53"
    then have "53 \<le> b - 1" by simp
    then have "(2::nat) ^ 53 \<le> 2 ^ (b - 1)" by (rule power_increasing) simp
    with bb N show False by simp
  qed
  have "bit_length (M * 2 ^ nat (k + int c)) = bit_length (N * 2 ^ c)" using eq by simp
  then have "bit_length M + nat (k + int c) = b + c"
    using Mpos N(1) by (simp add: bit_length_shift b_def)
  then have bl: "int (bit_length M) + k = int b" using c by linarith
  define q where "q = int b - 53"
  have q: "max (k + int (bit_length M) - 53) (- 1074) = q"
    using bl b1 by (simp add: q_def max_def)
  have qc: "0 \<le> q + int c" using c b1 by (simp add: q_def)
  have mN_q: "mN * 2 ^ nat (q + int c) = N * 2 ^ c"
  proof -
    have "nat (q + int c) + (53 - b) = c" using b53 c b1 by (simp add: q_def)
    then have "(2::nat) ^ c = 2 ^ (53 - b) * 2 ^ nat (q + int c)"
      by (metis add.commute power_add)
    then show ?thesis by (simp add: mN_def)
  qed
  have mant: "(if q \<le> k then M * 2 ^ nat (k - q) else rne_shift M (nat (q - k))) = mN"
  proof (cases "q \<le> k")
    case True
    have "nat (k + int c) = nat (k - q) + nat (q + int c)" using True qc by simp
    then have "M * 2 ^ nat (k - q) * 2 ^ nat (q + int c) = M * 2 ^ nat (k + int c)"
      by (simp add: power_add)
    also have "\<dots> = mN * 2 ^ nat (q + int c)" using eq mN_q by simp
    finally have "M * 2 ^ nat (k - q) = mN" by simp
    with True show ?thesis by simp
  next
    case False
    define sh where "sh = nat (q - k)"
    have sh: "0 < sh" using False by (simp add: sh_def)
    have "nat (q + int c) = sh + nat (k + int c)" using False c by (simp add: sh_def)
    then have "mN * 2 ^ sh * 2 ^ nat (k + int c) = mN * 2 ^ nat (q + int c)"
      by (simp add: power_add)
    also have "\<dots> = M * 2 ^ nat (k + int c)" using eq mN_q by simp
    finally have M: "M = mN * 2 ^ sh" by simp
    have "M div 2 ^ sh = mN" and "M mod 2 ^ sh = 0" by (simp_all add: M)
    moreover have "(0::nat) < 2 ^ (sh - 1)" by simp
    ultimately have "rne_shift M sh = mN" by (simp add: rne_shift_def Let_def)
    with False show ?thesis by (simp add: sh_def)
  qed
  have m_lo: "2 ^ 52 \<le> mN"
  proof -
    have "(2::nat) ^ 52 = 2 ^ (b - 1) * 2 ^ (53 - b)"
      using b1 b53 by (simp flip: power_add)
    also have "\<dots> \<le> N * 2 ^ (53 - b)" using bb(1) by simp
    finally show ?thesis by (simp add: mN_def)
  qed
  have m_hi: "mN < 2 ^ 53"
  proof -
    have "N * 2 ^ (53 - b) < 2 ^ b * 2 ^ (53 - b)" using bb(2) by simp
    also have "\<dots> = (2::nat) ^ 53" using b53 by (simp flip: power_add)
    finally show ?thesis by (simp add: mN_def)
  qed
  have "round_fin s M k = encode_fin s mN q"
    unfolding round_fin_def using m_hi by (simp add: add.commute q mant Let_def)
  also have "\<dots> = pack s (nat (q + 1075)) (mN - 2 ^ 52)"
    using m_lo b53 by (simp add: encode_fin_def q_def)
  also have "nat (q + 1075) = b + 1022" by (simp add: q_def)
  finally show ?thesis by (simp add: b_def mN_def)
qed

lemma sgn_val_dvd: "(2 ^ j dvd sgn_val s m) = ((2::nat) ^ j dvd m)"
proof -
  have "((2::int) ^ j dvd int m) = ((2::nat) ^ j dvd m)"
    by (metis of_nat_dvd_iff of_nat_numeral of_nat_power)
  then show ?thesis by (simp add: sgn_val_def)
qed

lemma fp_int_value_iff:
  assumes "0 \<le> e + int c"
  shows "fp_int_value (FFin s m e) = Some n \<longleftrightarrow>
           sgn_val s m * 2 ^ nat (e + int c) = n * 2 ^ c"
proof (cases "0 \<le> e")
  case True
  then have "nat (e + int c) = nat e + c" by simp
  then have "sgn_val s m * 2 ^ nat (e + int c) = sgn_val s m * 2 ^ nat e * 2 ^ c"
    by (simp add: power_add)
  with True show ?thesis by auto
next
  case False
  define j where "j = nat (- e)"
  have j: "j + nat (e + int c) = c" using False assms by (simp add: j_def)
  have p: "(2::int) ^ c = 2 ^ j * 2 ^ nat (e + int c)"
    by (simp flip: power_add add: j)
  have iff: "sgn_val s m * 2 ^ nat (e + int c) = n * 2 ^ c \<longleftrightarrow> sgn_val s m = n * 2 ^ j"
    unfolding p by simp
  show ?thesis
  proof (cases "(2::nat) ^ j dvd m")
    case True
    then have "2 ^ j dvd sgn_val s m" by (simp add: sgn_val_dvd)
    then have "sgn_val s m = n * 2 ^ j \<longleftrightarrow> sgn_val s m div 2 ^ j = n" by auto
    with True False show ?thesis unfolding iff by (simp add: j_def [symmetric])
  next
    case ndvd: False
    then have "\<not> 2 ^ j dvd sgn_val s m" by (simp add: sgn_val_dvd)
    then have "sgn_val s m \<noteq> n * 2 ^ j" by auto
    with ndvd False show ?thesis unfolding iff by (simp add: j_def [symmetric])
  qed
qed

lemma int_value_iff:
  assumes "1074 \<le> c"
  shows "int_value a = Some n \<longleftrightarrow>
     (\<exists>s m e. decode a = FFin s m e \<and> sgn_val s m * 2 ^ nat (e + int c) = n * 2 ^ c)"
proof (cases "decode a")
  case (FFin s m e)
  then have "- 1074 \<le> e" by (rule decode_exponent)
  with assms have "0 \<le> e + int c" by simp
  then show ?thesis
    using FFin fp_int_value_iff [of e c s m n] by (simp add: int_value_def del: fp_int_value.simps)
qed (simp_all add: int_value_def)

lemma int_value_pack:
  assumes "0 < N" and "N < 2 ^ 53"
  shows "int_value (pack s (bit_length N + 1022) (N * 2 ^ (53 - bit_length N) - 2 ^ 52)) =
           Some (sgn_val s N)"
proof -
  define b where "b = bit_length N"
  define mN where "mN = N * 2 ^ (53 - b)"
  have b1: "0 < b" unfolding b_def using assms(1) by (rule bit_length_pos)
  have bb: "2 ^ (b - 1) \<le> N" "N < 2 ^ b"
    unfolding b_def using bit_length_bounds [OF assms(1)] by auto
  have b53: "b \<le> 53"
  proof (rule ccontr)
    assume "\<not> b \<le> 53"
    then have "53 \<le> b - 1" by simp
    then have "(2::nat) ^ 53 \<le> 2 ^ (b - 1)" by (rule power_increasing) simp
    with bb assms show False by simp
  qed
  have m_lo: "2 ^ 52 \<le> mN"
  proof -
    have "(2::nat) ^ 52 = 2 ^ (b - 1) * 2 ^ (53 - b)"
      using b1 b53 by (simp flip: power_add)
    also have "\<dots> \<le> N * 2 ^ (53 - b)" using bb(1) by simp
    finally show ?thesis by (simp add: mN_def)
  qed
  have m_hi: "mN < 2 ^ 53"
  proof -
    have "N * 2 ^ (53 - b) < 2 ^ b * 2 ^ (53 - b)" using bb(2) by simp
    also have "\<dots> = (2::nat) ^ 53" using b53 by (simp flip: power_add)
    finally show ?thesis by (simp add: mN_def)
  qed
  have "decode (pack s (b + 1022) (mN - 2 ^ 52)) = FFin s (2 ^ 52 + (mN - 2 ^ 52)) (int (b + 1022) - 1075)"
    using b1 b53 m_hi by (intro decode_pack_normal) auto
  then have d: "decode (pack s (b + 1022) (mN - 2 ^ 52)) = FFin s mN (int b - 53)"
    using m_lo by simp
  define c :: nat where "c = 1074"
  have "sgn_val s mN * 2 ^ nat (int b - 53 + int c) = sgn_val s N * 2 ^ c"
  proof -
    have "nat (int b - 53 + int c) + (53 - b) = c" using b53 by (simp add: c_def)
    then have "(2::int) ^ c = 2 ^ (53 - b) * 2 ^ nat (int b - 53 + int c)"
      by (metis add.commute power_add)
    moreover have "sgn_val s mN = sgn_val s N * 2 ^ (53 - b)"
      by (simp add: sgn_val_def mN_def)
    ultimately show ?thesis by simp
  qed
  moreover have "1074 \<le> c" by (simp add: c_def)
  ultimately have "int_value (pack s (b + 1022) (mN - 2 ^ 52)) = Some (sgn_val s N)"
    using d int_value_iff [of c "pack s (b + 1022) (mN - 2 ^ 52)" "sgn_val s N"] by blast
  then show ?thesis by (simp add: b_def mN_def)
qed

lemma round_fin_int_value:
  assumes "D \<noteq> 0" and "53 \<le> c" and "0 \<le> k + int c"
    and "D * 2 ^ nat (k + int c) = v * 2 ^ c" and "\<bar>v\<bar> < 2 ^ 53"
  shows "int_value (round_fin (D < 0) (nat \<bar>D\<bar>) k) = Some v"
proof -
  define N where "N = nat \<bar>v\<bar>"
  have "v \<noteq> 0" using assms(1,4) by auto
  then have N: "0 < N" "N < 2 ^ 53" using assms(5) by (auto simp: N_def)
  have "\<bar>D\<bar> * 2 ^ nat (k + int c) = \<bar>v\<bar> * 2 ^ c"
    using arg_cong [OF assms(4), of abs] by (simp add: abs_mult)
  then have "int (nat \<bar>D\<bar> * 2 ^ nat (k + int c)) = int (N * 2 ^ c)"
    by (simp add: N_def)
  then have eq: "nat \<bar>D\<bar> * 2 ^ nat (k + int c) = N * 2 ^ c" by (simp only: of_nat_eq_iff)
  have sign: "(D < 0) = (v < 0)"
  proof -
    have "(D * 2 ^ nat (k + int c) < 0) = (v * 2 ^ c < 0)" using assms(4) by simp
    then show ?thesis by (simp add: mult_less_0_iff)
  qed
  have "sgn_val (v < 0) N = v" by (simp add: sgn_val_def N_def)
  then show ?thesis
    using round_fin_exact [OF N assms(2,3) eq, of "D < 0"] int_value_pack [OF N, of "v < 0"]
    by (simp add: sign)
qed

lemma int_value_dzero: "int_value (dzero s) = Some 0"
  by (simp add: int_value_def decode_dzero sgn_val_def)

lemma int_value_dsub:
  assumes "int_value a = Some n" and "int_value b = Some k" and "\<bar>n - k\<bar> < 2 ^ 53"
  shows "int_value (dsub a b) = Some (n - k)"
proof -
  define c :: nat where "c = 1074"
  have c: "1074 \<le> c" "53 \<le> c" by (simp_all add: c_def)
  from assms(1) obtain s m e where a: "decode a = FFin s m e"
    and va: "sgn_val s m * 2 ^ nat (e + int c) = n * 2 ^ c"
    unfolding int_value_iff [OF c(1)] by blast
  from assms(2) obtain t m' f where b: "decode b = FFin t m' f"
    and vb: "sgn_val t m' * 2 ^ nat (f + int c) = k * 2 ^ c"
    unfolding int_value_iff [OF c(1)] by blast
  have e: "- 1074 \<le> e" and f: "- 1074 \<le> f"
    using a b by (auto dest: decode_exponent)
  define kk where "kk = min e f"
  define D where "D = sgn_val s m * 2 ^ nat (e - kk) - sgn_val t m' * 2 ^ nat (f - kk)"
  have kk: "0 \<le> kk + int c" "kk \<le> e" "kk \<le> f" using e f by (auto simp: kk_def c_def)
  have "nat (e + int c) = nat (e - kk) + nat (kk + int c)"
    and "nat (f + int c) = nat (f - kk) + nat (kk + int c)"
    using kk by auto
  then have "D * 2 ^ nat (kk + int c) =
      sgn_val s m * 2 ^ nat (e + int c) - sgn_val t m' * 2 ^ nat (f + int c)"
    by (simp add: D_def left_diff_distrib power_add)
  then have Deq: "D * 2 ^ nat (kk + int c) = (n - k) * 2 ^ c"
    by (simp add: va vb left_diff_distrib)
  have ds: "dsub a b = (if D = 0 then dzero (s \<and> \<not> t) else round_fin (D < 0) (nat \<bar>D\<bar>) kk)"
    by (simp add: dsub_def a b Let_def D_def kk_def)
  show ?thesis
  proof (cases "D = 0")
    case True
    with Deq have "n - k = 0" by simp
    with True show ?thesis by (simp add: ds int_value_dzero)
  next
    case False
    then show ?thesis
      using round_fin_int_value [OF False c(2) kk(1) Deq assms(3)] by (simp add: ds)
  qed
qed

lemma int_value_dmul:
  assumes "int_value a = Some n" and "int_value b = Some k" and "\<bar>n * k\<bar> < 2 ^ 53"
  shows "int_value (dmul a b) = Some (n * k)"
proof -
  define c :: nat where "c = 1074"
  have c: "1074 \<le> c" "53 \<le> c + c" by (simp_all add: c_def)
  from assms(1) obtain s m e where a: "decode a = FFin s m e"
    and va: "sgn_val s m * 2 ^ nat (e + int c) = n * 2 ^ c"
    unfolding int_value_iff [OF c(1)] by blast
  from assms(2) obtain t m' f where b: "decode b = FFin t m' f"
    and vb: "sgn_val t m' * 2 ^ nat (f + int c) = k * 2 ^ c"
    unfolding int_value_iff [OF c(1)] by blast
  have e: "0 \<le> e + int c" and f: "0 \<le> f + int c"
    using a b by (auto dest: decode_exponent simp: c_def)
  define D where "D = sgn_val s m * sgn_val t m'"
  have ef: "0 \<le> e + f + int (c + c)" using e f by simp
  have "nat (e + f + int (c + c)) = nat (e + int c) + nat (f + int c)" using e f by simp
  then have "D * 2 ^ nat (e + f + int (c + c)) =
      (sgn_val s m * 2 ^ nat (e + int c)) * (sgn_val t m' * 2 ^ nat (f + int c))"
    by (simp add: D_def power_add)
  then have Deq: "D * 2 ^ nat (e + f + int (c + c)) = (n * k) * 2 ^ (c + c)"
    by (simp add: va vb power_add)
  have abs: "nat \<bar>D\<bar> = m * m'"
    by (simp add: D_def sgn_val_def abs_mult nat_mult_distrib)
  have dm: "dmul a b = (if m * m' = 0 then dzero (s \<noteq> t) else round_fin (s \<noteq> t) (m * m') (e + f))"
    by (simp add: dmul_def a b)
  show ?thesis
  proof (cases "m * m' = 0")
    case True
    then have "D = 0" by (auto simp: D_def sgn_val_def)
    with Deq have "n * k = 0" by simp
    with True show ?thesis by (simp add: dm int_value_dzero)
  next
    case False
    then have D0: "D \<noteq> 0" by (auto simp: D_def sgn_val_def)
    from False have sign: "(D < 0) = (s \<noteq> t)"
      by (auto simp: D_def sgn_val_def mult_less_0_iff)
    show ?thesis
      using round_fin_int_value [OF D0 c(2) ef Deq assms(3)] False
      by (simp add: dm abs sign)
  qed
qed

lemma int_value_dneg:
  assumes "int_value a = Some n"
  shows "int_value (dneg a) = Some (- n)"
proof -
  define c :: nat where "c = 1074"
  have c: "1074 \<le> c" by (simp add: c_def)
  from assms obtain s m e where a: "decode a = FFin s m e"
    and va: "sgn_val s m * 2 ^ nat (e + int c) = n * 2 ^ c"
    unfolding int_value_iff [OF c] by blast
  have "decode (dneg a) = FFin (\<not> s) m e" by (simp add: decode_dneg a)
  moreover have "sgn_val (\<not> s) m * 2 ^ nat (e + int c) = - n * 2 ^ c"
    using va by (simp add: sgn_val_def split: if_splits)
  ultimately show ?thesis unfolding int_value_iff [OF c] by blast
qed

lemma int_value_deq:
  assumes "int_value a = Some n" and "int_value b = Some n"
  shows "deq a b"
proof -
  define c :: nat where "c = 1074"
  have c: "1074 \<le> c" by (simp add: c_def)
  from assms(1) obtain s m e where a: "decode a = FFin s m e"
    and va: "sgn_val s m * 2 ^ nat (e + int c) = n * 2 ^ c"
    unfolding int_value_iff [OF c] by blast
  from assms(2) obtain t m' f where b: "decode b = FFin t m' f"
    and vb: "sgn_val t m' * 2 ^ nat (f + int c) = n * 2 ^ c"
    unfolding int_value_iff [OF c] by blast
  have e: "- 1074 \<le> e" and f: "- 1074 \<le> f"
    using a b by (auto dest: decode_exponent)
  define kk where "kk = min e f"
  have kk: "0 \<le> kk + int c" "kk \<le> e" "kk \<le> f" using e f by (auto simp: kk_def c_def)
  have "nat (e + int c) = nat (e - kk) + nat (kk + int c)"
    and "nat (f + int c) = nat (f - kk) + nat (kk + int c)"
    using kk by auto
  then have "sgn_val s m * 2 ^ nat (e + int c) =
        sgn_val s m * 2 ^ nat (e - kk) * 2 ^ nat (kk + int c)"
    and "sgn_val t m' * 2 ^ nat (f + int c) =
        sgn_val t m' * 2 ^ nat (f - kk) * 2 ^ nat (kk + int c)"
    by (simp_all add: power_add)
  with va vb have "sgn_val s m * 2 ^ nat (e - kk) * 2 ^ nat (kk + int c) =
      sgn_val t m' * 2 ^ nat (f - kk) * 2 ^ nat (kk + int c)"
    by presburger
  then have "sgn_val s m * 2 ^ nat (e - kk) = sgn_val t m' * 2 ^ nat (f - kk)" by simp
  then show ?thesis by (simp add: deq_def a b kk_def Let_def)
qed

section \<open>Properties of the winding classifier\<close>

lemma ex_isLeft_012: "isLeft ex_P0 ex_P1 ex_P2 = 0xBFFCCCCCCCCCCCCD"
  by (simp add: ex_P0_def ex_P1_def ex_P2_def isLeft_def fp_eval)

lemma ex_isLeft_102: "isLeft ex_P1 ex_P0 ex_P2 = 0x3FFCCCCCCCCCCCCC"
  by (simp add: ex_P0_def ex_P1_def ex_P2_def isLeft_def fp_eval)

text \<open>
  C9. The classifier is not antisymmetric in its first two arguments on doubles: the two
  calls subtract different pairs of coordinates, and these differences round
  differently. For \<open>P0 = (1,2)\<close>, \<open>P1 = (2,3)\<close> and \<open>P2 = (1.5,0.7)\<close> the value
  of \<open>isLeft P0 P1 P2\<close> is the double nearest to \<open>-1.8\<close> and that of
  \<open>isLeft P1 P0 P2\<close> is the next double below \<open>1.8\<close>, \<open>1.7999999999999998\<close>.
\<close>

theorem isLeft_antisymmetry_counterexample:
  "\<not> deq (isLeft ex_P0 ex_P1 ex_P2) (dneg (isLeft ex_P1 ex_P0 ex_P2))"
  by (simp add: ex_isLeft_012 ex_isLeft_102 deq_def dneg_def sign_mask_def decode_def sgn_val_def)

lemma isLeft_int_value:
  assumes "int_value (x P0) = Some x0" and "int_value (y P0) = Some y0"
    and "int_value (x P1) = Some x1" and "int_value (y P1) = Some y1"
    and "int_value (x P2) = Some x2" and "int_value (y P2) = Some y2"
    and "\<bar>x0\<bar> \<le> 2 ^ 24" and "\<bar>y0\<bar> \<le> 2 ^ 24" and "\<bar>x1\<bar> \<le> 2 ^ 24"
    and "\<bar>y1\<bar> \<le> 2 ^ 24" and "\<bar>x2\<bar> \<le> 2 ^ 24" and "\<bar>y2\<bar> \<le> 2 ^ 24"
  shows "int_value (isLeft P0 P1 P2) = Some ((x1 - x0) * (y2 - y0) - (x2 - x0) * (y1 - y0))"
proof -
  have small: "\<bar>u - v\<bar> \<le> 2 ^ 25" if "\<bar>u\<bar> \<le> 2 ^ 24" and "\<bar>v\<bar> \<le> 2 ^ 24" for u v :: int
    using that by simp
  have prod: "\<bar>u * v\<bar> \<le> 2 ^ 50" if "\<bar>u\<bar> \<le> 2 ^ 25" and "\<bar>v\<bar> \<le> 2 ^ 25" for u v :: int
  proof -
    have "\<bar>u\<bar> * \<bar>v\<bar> \<le> 2 ^ 25 * 2 ^ 25" using that by (intro mult_mono) auto
    then show ?thesis by (simp add: abs_mult)
  qed
  have d1: "\<bar>x1 - x0\<bar> \<le> 2 ^ 25" and d2: "\<bar>y2 - y0\<bar> \<le> 2 ^ 25"
    and d3: "\<bar>x2 - x0\<bar> \<le> 2 ^ 25" and d4: "\<bar>y1 - y0\<bar> \<le> 2 ^ 25"
    using assms by (auto intro: small)
  have a: "int_value (dsub (x P1) (x P0)) = Some (x1 - x0)"
    using assms(3,1) d1 by (intro int_value_dsub) auto
  have b: "int_value (dsub (y P2) (y P0)) = Some (y2 - y0)"
    using assms(6,2) d2 by (intro int_value_dsub) auto
  have c: "int_value (dsub (x P2) (x P0)) = Some (x2 - x0)"
    using assms(5,1) d3 by (intro int_value_dsub) auto
  have d: "int_value (dsub (y P1) (y P0)) = Some (y1 - y0)"
    using assms(4,2) d4 by (intro int_value_dsub) auto
  have p1: "\<bar>(x1 - x0) * (y2 - y0)\<bar> \<le> 2 ^ 50" using d1 d2 by (rule prod)
  have p2: "\<bar>(x2 - x0) * (y1 - y0)\<bar> \<le> 2 ^ 50" using d3 d4 by (rule prod)
  have A: "int_value (dmul (dsub (x P1) (x P0)) (dsub (y P2) (y P0))) = Some ((x1 - x0) * (y2 - y0))"
    using a b p1 by (intro int_value_dmul) auto
  have B: "int_value (dmul (dsub (x P2) (x P0)) (dsub (y P1) (y P0))) = Some ((x2 - x0) * (y1 - y0))"
    using c d p2 by (intro int_value_dmul) auto
  have "\<bar>(x1 - x0) * (y2 - y0) - (x2 - x0) * (y1 - y0)\<bar> < 2 ^ 53" using p1 p2 by simp
  then show ?thesis unfolding isLeft_def using A B by (intro int_value_dsub) auto
qed

lemma ex_int_values:
  "int_value (x ex_P0) = Some 1" "int_value (y ex_P0) = Some 2"
  "int_value (x ex_inside) = Some 3" "int_value (y ex_inside) = Some 3"
  "int_value (x ex_outside) = Some 6" "int_value (y ex_outside) = Some 3"
  by (simp_all add: int_value_def decode_def sgn_val_def ex_P0_def ex_inside_def ex_outside_def)

text \<open>
  C9, as the code has it: when the six coordinates are integers of magnitude at most
  \<open>2^24\<close>, every difference and product of the formula is exact, and the classifier
  is antisymmetric in its first two arguments.
\<close>

theorem isLeft_antisymmetry_integers:
  assumes "int_value (x P0) = Some x0" and "int_value (y P0) = Some y0"
    and "int_value (x P1) = Some x1" and "int_value (y P1) = Some y1"
    and "int_value (x P2) = Some x2" and "int_value (y P2) = Some y2"
    and "\<bar>x0\<bar> \<le> 2 ^ 24" and "\<bar>y0\<bar> \<le> 2 ^ 24" and "\<bar>x1\<bar> \<le> 2 ^ 24"
    and "\<bar>y1\<bar> \<le> 2 ^ 24" and "\<bar>x2\<bar> \<le> 2 ^ 24" and "\<bar>y2\<bar> \<le> 2 ^ 24"
  shows "deq (isLeft P0 P1 P2) (dneg (isLeft P1 P0 P2))"
proof -
  have 1: "int_value (isLeft P0 P1 P2) = Some ((x1 - x0) * (y2 - y0) - (x2 - x0) * (y1 - y0))"
    using assms by (rule isLeft_int_value)
  have "int_value (isLeft P1 P0 P2) = Some ((x0 - x1) * (y2 - y1) - (x2 - x1) * (y0 - y1))"
    using assms(3,4,1,2,5,6,9,10,7,8,11,12) by (rule isLeft_int_value)
  then have "int_value (dneg (isLeft P1 P0 P2)) = Some (- ((x0 - x1) * (y2 - y1) - (x2 - x1) * (y0 - y1)))"
    by (rule int_value_dneg)
  moreover have "- ((x0 - x1) * (y2 - y1) - (x2 - x1) * (y0 - y1)) =
      (x1 - x0) * (y2 - y0) - (x2 - x0) * (y1 - y0)"
    by (simp add: algebra_simps)
  ultimately show ?thesis using 1 by (auto intro: int_value_deq)
qed

theorem isLeft_antisymmetry_integers_witness:
  "int_value (x ex_P0) = Some 1 \<and> int_value (y ex_P0) = Some 2 \<and>
   int_value (x ex_inside) = Some 3 \<and> int_value (y ex_inside) = Some 3 \<and>
   int_value (x ex_outside) = Some 6 \<and> int_value (y ex_outside) = Some 3 \<and>
   \<bar>1 :: int\<bar> \<le> 2 ^ 24 \<and> \<bar>2 :: int\<bar> \<le> 2 ^ 24 \<and> \<bar>3 :: int\<bar> \<le> 2 ^ 24 \<and> \<bar>6 :: int\<bar> \<le> 2 ^ 24 \<and>
   deq (isLeft ex_P0 ex_inside ex_outside) (dneg (isLeft ex_inside ex_P0 ex_outside))"
proof -
  have b: "\<bar>1 :: int\<bar> \<le> 2 ^ 24" "\<bar>2 :: int\<bar> \<le> 2 ^ 24" "\<bar>3 :: int\<bar> \<le> 2 ^ 24" "\<bar>6 :: int\<bar> \<le> 2 ^ 24"
    by simp_all
  note t = isLeft_antisymmetry_integers [OF ex_int_values b(1,2,3,3,4,3)]
  show ?thesis using ex_int_values b t by simp
qed

text \<open>
  On all doubles the classifier is antisymmetric in its last two arguments, whenever the
  value is a number: \<open>isLeft P0 P1 P2 == -isLeft P0 P2 P1\<close>. The two calls compute the
  same two products and subtract them in the other order.
\<close>

lemma isLeft_swap:
  assumes "\<not> is_nan (isLeft P0 P1 P2)"
  shows "deq (isLeft P0 P1 P2) (dneg (isLeft P0 P2 P1))"
  using assms unfolding isLeft_def dsub_def [of "dmul _ _" "dmul _ _"]
  by (rule fp_sub_swap)

section \<open>Properties of the point-in-polygon engine\<close>

lemma size_minus_1_zero: "size_minus_1 0 = 2 ^ 64 - 1"
  by (simp add: size_minus_1_def)

lemma size_minus_1_pos: "0 < n \<Longrightarrow> n < 2 ^ 64 \<Longrightarrow> size_minus_1 n = n - 1"
  by (simp add: size_minus_1_def mod_if)

lemma edge_loop_empty: "edge_loop point [] 0 wn = Inl OutOfBounds"
  by (simp add: edge_loop.simps size_minus_1_zero)

lemma edge_loop_single: "edge_loop point [a] 0 wn = Inr wn"
  by (simp add: edge_loop.simps size_minus_1_def)

lemma pointWithinPolygons_empty_ring: "pointWithinPolygons point ([] # polys) = Inl OutOfBounds"
  by (simp add: pointWithinPolygons_def edge_loop_empty)

lemma edge_body_spec:
  "edge_body point a b wn =
     (if upward_crossing point a b \<and> dgt (isLeft a b point) 0 then incr wn
      else if downward_crossing point a b \<and> dlt (isLeft a b point) 0 then decr wn
      else Inr wn)"
proof (cases "dle (y a) (y point)")
  case True
  then have "\<not> dgt (y a) (y point)" by (rule dle_not_dgt)
  with True show ?thesis
    by (simp add: edge_body_def upward_crossing_def downward_crossing_def)
next
  case False
  have "dgt (y a) (y point)" if "dlt (isLeft a b point) 0"
  proof -
    from that have "\<not> is_nan (isLeft a b point)" by (rule dlt_not_nan)
    then have "\<not> is_nan (y a)" and "\<not> is_nan (y point)" using isLeft_nan by blast+
    with False show ?thesis by (simp add: not_dle_dgt)
  qed
  with False show ?thesis
    by (auto simp: edge_body_def upward_crossing_def downward_crossing_def)
qed

lemma edge_body_in_range:
  assumes "\<bar>wn\<bar> < 2 ^ 31 - 1"
  shows "edge_body point (poly ! i) (poly ! (i + 1)) wn = Inr (spec_edge point poly wn i)"
    and "\<bar>spec_edge point poly wn i\<bar> \<le> \<bar>wn\<bar> + 1"
  using assms by (auto simp: edge_body_spec spec_edge_def Let_def incr_def decr_def)

lemma edge_loop_spec:
  assumes "i < length poly" and "\<bar>wn\<bar> + int (length poly - 1 - i) < 2 ^ 31"
    and "length poly < 2 ^ 64"
  shows "edge_loop point poly i wn = Inr (foldl (spec_edge point poly) wn [i..<length poly - 1]) \<and>
         \<bar>foldl (spec_edge point poly) wn [i..<length poly - 1]\<bar> \<le> \<bar>wn\<bar> + int (length poly - 1 - i)"
  using assms
proof (induction "length poly - 1 - i" arbitrary: i wn)
  case 0
  then have i: "i = length poly - 1" by simp
  from 0 have "0 < length poly" and "length poly < 2 ^ 64" by auto
  then have "size_minus_1 (length poly) = length poly - 1" by (rule size_minus_1_pos)
  with i have "size_minus_1 (length poly) = i" by simp
  then show ?case using i by (simp add: edge_loop.simps)
next
  case (Suc k)
  then have lt: "i < length poly - 1" by simp
  from lt have "0 < length poly" by auto
  then have sz: "size_minus_1 (length poly) = length poly - 1"
    using Suc.prems(3) by (rule size_minus_1_pos)
  from Suc have wn: "\<bar>wn\<bar> < 2 ^ 31 - 1" by simp
  let ?wn' = "spec_edge point poly wn i"
  have step: "edge_loop point poly i wn = edge_loop point poly (i + 1) ?wn'"
  proof -
    from lt have "\<not> length poly \<le> i" and "\<not> length poly \<le> i + 1" by auto
    then show ?thesis
      using lt sz edge_body_in_range(1) [OF wn, of point poly i]
      by (subst edge_loop.simps) simp
  qed
  have b: "\<bar>?wn'\<bar> \<le> \<bar>wn\<bar> + 1" by (rule edge_body_in_range(2) [OF wn])
  have k: "k = length poly - 1 - (i + 1)" using Suc.hyps(2) by simp
  have "i + 1 < length poly" using lt by simp
  moreover have "\<bar>?wn'\<bar> + int (length poly - 1 - (i + 1)) < 2 ^ 31"
    using b Suc.prems(2) lt by simp
  ultimately have IH: "edge_loop point poly (i + 1) ?wn' =
        Inr (foldl (spec_edge point poly) ?wn' [i + 1..<length poly - 1]) \<and>
      \<bar>foldl (spec_edge point poly) ?wn' [i + 1..<length poly - 1]\<bar>
        \<le> \<bar>?wn'\<bar> + int (length poly - 1 - (i + 1))"
    using Suc.hyps(1) [OF k] Suc.prems(3) by blast
  have fold: "foldl (spec_edge point poly) wn [i..<length poly - 1] =
      foldl (spec_edge point poly) ?wn' [i + 1..<length poly - 1]"
    by (subst upt_conv_Cons [OF lt]) simp
  have "int (length poly - 1 - (i + 1)) + 1 = int (length poly - 1 - i)"
    using lt by simp
  with IH b have "\<bar>foldl (spec_edge point poly) ?wn' [i + 1..<length poly - 1]\<bar>
      \<le> \<bar>wn\<bar> + int (length poly - 1 - i)" by linarith
  with step IH fold show ?case by presburger
qed

lemma edge_loop_ring:
  assumes "poly \<noteq> []" and "\<bar>wn\<bar> + int (length poly) \<le> 2 ^ 31"
  shows "edge_loop point poly 0 wn = Inr (spec_ring point poly wn)"
    and "\<bar>spec_ring point poly wn\<bar> + 1 \<le> \<bar>wn\<bar> + int (length poly)"
proof -
  from assms have a: "0 < length poly" and b: "\<bar>wn\<bar> + int (length poly - 1 - 0) < 2 ^ 31"
    by (auto simp: Suc_leI)
  from assms have c: "length poly < 2 ^ 64" by simp
  note r = edge_loop_spec [OF a b c, of point]
  from r show "edge_loop point poly 0 wn = Inr (spec_ring point poly wn)"
    by (simp add: spec_ring_def)
  from r a show "\<bar>spec_ring point poly wn\<bar> + 1 \<le> \<bar>wn\<bar> + int (length poly)"
    by (simp add: spec_ring_def)
qed

lemma rings_loop_spec:
  assumes "\<forall>poly \<in> set polys. poly \<noteq> []"
    and "\<bar>wn\<bar> + int (sum_list (map length polys)) \<le> 2 ^ 31"
  shows "rings_loop point polys wn = Inr (spec_rings point polys wn)"
  using assms
proof (induction polys arbitrary: wn)
  case Nil
  then show ?case by simp
next
  case (Cons poly polys)
  from Cons.prems have ne: "poly \<noteq> []" by simp
  from Cons.prems have bd: "\<bar>wn\<bar> + int (length poly) \<le> 2 ^ 31" by simp
  note e = edge_loop_ring [OF ne bd, of point]
  have "\<bar>spec_ring point poly wn\<bar> + int (sum_list (map length polys)) \<le> 2 ^ 31"
    using e(2) Cons.prems(2) by simp
  with Cons have "rings_loop point polys (spec_ring point poly wn) =
      Inr (spec_rings point polys (spec_ring point poly wn))" by simp
  with e(1) show ?case by auto
qed

lemma ex_inside_within: "pointWithinPolygons ex_inside [ex_triangle] = Inr True"
  by (simp add: pointWithinPolygons_def edge_loop.simps size_minus_1_def edge_body_def
      ex_triangle_def ex_inside_def isLeft_def incr_def decr_def fp_eval)


text \<open>
  C2. A ring of one point runs the edge loop zero times and leaves the winding number
  as it is. The empty ring does not: \<^verbatim>\<open>size - 1\<close> wraps to \<open>2^64 - 1\<close>, the loop is
  entered with \<open>i = 0\<close> and reads \<^verbatim>\<open>poly[0]\<close> outside the bounds of the ring.
\<close>

theorem ring_fewer_than_two_points:
  "edge_loop point [a] 0 wn = Inr wn \<and>
   edge_loop point [] 0 wn = Inl OutOfBounds \<and>
   pointWithinPolygons point [[]] = Inl OutOfBounds"
  by (simp add: edge_loop_single edge_loop_empty pointWithinPolygons_empty_ring)

text \<open>
  C1. On a polygon whose rings are all non-empty (with fewer than \<open>2^31\<close> points in
  all, so that the \<^verbatim>\<open>int\<close> counter cannot overflow) the engine returns what the
  specification states: the winding number counted over the edges \<open>(i, i + 1)\<close>,
  "inside" after the first ring that leaves it non-zero, "outside" when no ring does.
  On a polygon that starts with an empty ring it reads outside the bounds of that ring.
\<close>

theorem pointWithinPolygons_winding_number:
  "((\<forall>poly \<in> set polys. poly \<noteq> []) \<and> sum_list (map length polys) < 2 ^ 31
      \<longrightarrow> pointWithinPolygons point polys = Inr (spec_pointWithinPolygons point polys)) \<and>
   pointWithinPolygons point ([] # polys) = Inl OutOfBounds"
proof -
  have "pointWithinPolygons point polys = Inr (spec_pointWithinPolygons point polys)"
    if "\<forall>poly \<in> set polys. poly \<noteq> []" and "sum_list (map length polys) < 2 ^ 31"
  proof -
    from that(2) have "\<bar>0 :: int\<bar> + int (sum_list (map length polys)) \<le> 2 ^ 31" by simp
    with that(1) show ?thesis
      unfolding pointWithinPolygons_def spec_pointWithinPolygons_def by (rule rings_loop_spec)
  qed
  then show ?thesis by (simp add: pointWithinPolygons_empty_ring)
qed

theorem pointWithinPolygons_winding_number_witness:
  "ex_triangle \<noteq> [] \<and> sum_list (map length [ex_triangle]) < 2 ^ 31 \<and>
   pointWithinPolygons ex_inside [ex_triangle] = Inr (spec_pointWithinPolygons ex_inside [ex_triangle]) \<and>
   spec_pointWithinPolygons ex_inside [ex_triangle] = True \<and>
   pointWithinPolygons ex_inside [[], ex_triangle] = Inl OutOfBounds"
proof -
  have h: "(\<forall>poly \<in> set [ex_triangle]. poly \<noteq> []) \<and> sum_list (map length [ex_triangle]) < 2 ^ 31"
    by (simp add: ex_triangle_def)
  note t = pointWithinPolygons_winding_number [of "[ex_triangle]" ex_inside]
  from t h have "pointWithinPolygons ex_inside [ex_triangle] =
      Inr (spec_pointWithinPolygons ex_inside [ex_triangle])" by blast
  moreover from t have "pointWithinPolygons ex_inside [[], ex_triangle] = Inl OutOfBounds" by blast
  ultimately show ?thesis using h ex_inside_within by simp
qed

section \<open>Properties of the geometry adapter\<close>




section \<open>Properties of the expression node\<close>

subsection \<open>Evaluate\<close>

text \<open>
  C4. \<^verbatim>\<open>evaluate\<close> returns false and logs nothing when the feature or the tile id is
  absent, returns what the geometry adapter returns on the feature, the tile id and the
  stored GeoJSON when the feature is of type Point, and otherwise returns false and logs
  one warning. It does not always yield a boolean: on a stored polygon that starts with
  an empty ring and a point feature the engine reads outside the bounds of the ring.
\<close>

theorem evaluate_dispatch:
  "(feature params = None \<or> canonical params = None \<longrightarrow>
      evaluate getType convertGeometry node params log = (Inr False, log)) \<and>
   (feature params = Some f \<and> canonical params = Some c \<and> getType f = FT_Point \<longrightarrow>
      evaluate getType convertGeometry node params log =
        (pointsWithinPolygons convertGeometry f c (geoJSONSource node), log)) \<and>
   (feature params = Some f \<and> canonical params = Some c \<and> getType f \<noteq> FT_Point \<longrightarrow>
      evaluate getType convertGeometry node params log =
        (Inr False,
         log @ [(Warning, General,
                 ''Within expression currently only support 'Point' geometry type'')])) \<and>
   (feature params = Some f \<and> canonical params = Some c \<and> getType f = FT_Point \<and>
    convertGeometry f c = G_point p \<and> geoJSONSource node = GJ_geometry (G_polygon ([] # polys)) \<longrightarrow>
      evaluate getType convertGeometry node params log = (Inl OutOfBounds, log))"
  by (auto simp: evaluate_def pointsWithinPolygons_def pointWithinPolygons_empty_ring
      split: option.splits)

theorem evaluate_dispatch_witness:
  "(feature ex_params_no_tile = None \<or> canonical ex_params_no_tile = None) \<and>
   evaluate ex_getType ex_convertGeometry ex_node ex_params_no_tile [] = (Inr False, []) \<and>
   feature ex_params_point = Some (G_point ex_inside) \<and> canonical ex_params_point = Some () \<and>
   ex_getType (G_point ex_inside) = FT_Point \<and>
   evaluate ex_getType ex_convertGeometry ex_node ex_params_point [] = (Inr True, []) \<and>
   feature ex_params_line = Some (G_line_string [ex_inside, ex_outside]) \<and>
   canonical ex_params_line = Some () \<and>
   ex_getType (G_line_string [ex_inside, ex_outside]) \<noteq> FT_Point \<and>
   evaluate ex_getType ex_convertGeometry ex_node ex_params_line [] =
     (Inr False,
      [(Warning, General, ''Within expression currently only support 'Point' geometry type'')]) \<and>
   ex_convertGeometry (G_point ex_inside) () = G_point ex_inside \<and>
   geoJSONSource ex_node_empty_ring = GJ_geometry (G_polygon ([] # [])) \<and>
   evaluate ex_getType ex_convertGeometry ex_node_empty_ring ex_params_point [] =
     (Inl OutOfBounds, [])"
proof -
  have h1: "feature ex_params_no_tile = None \<or> canonical ex_params_no_tile = None"
    by (simp add: ex_params_no_tile_def)
  have h2: "feature ex_params_point = Some (G_point ex_inside) \<and>
      canonical ex_params_point = Some () \<and> ex_getType (G_point ex_inside) = FT_Point"
    by (simp add: ex_params_point_def)
  have h3: "feature ex_params_line = Some (G_line_string [ex_inside, ex_outside]) \<and>
      canonical ex_params_line = Some () \<and>
      ex_getType (G_line_string [ex_inside, ex_outside]) \<noteq> FT_Point"
    by (simp add: ex_params_line_def)
  have h4: "ex_convertGeometry (G_point ex_inside) () = G_point ex_inside \<and>
      geoJSONSource ex_node_empty_ring = GJ_geometry (G_polygon ([] # []))"
    by (simp add: ex_convertGeometry_def ex_node_empty_ring_def)
  have d: "pointsWithinPolygons ex_convertGeometry (G_point ex_inside) () (geoJSONSource ex_node) =
      Inr True"
    by (simp add: pointsWithinPolygons_def ex_convertGeometry_def ex_node_def ex_inside_within)
  note t1 = evaluate_dispatch [where params = ex_params_no_tile and getType = ex_getType
      and convertGeometry = ex_convertGeometry and node = ex_node and log = "[]",
      THEN conjunct1, rule_format, OF h1]
  note t2 = evaluate_dispatch [where params = ex_params_point and getType = ex_getType
      and convertGeometry = ex_convertGeometry and node = ex_node and log = "[]"
      and f = "G_point ex_inside" and c = "()",
      THEN conjunct2, THEN conjunct1, rule_format, OF h2]
  note t3 = evaluate_dispatch [where params = ex_params_line and getType = ex_getType
      and convertGeometry = ex_convertGeometry and node = ex_node and log = "[]"
      and f = "G_line_string [ex_inside, ex_outside]" and c = "()",
      THEN conjunct2, THEN conjunct2, THEN conjunct1, rule_format, OF h3]
  note t4 = evaluate_dispatch [where params = ex_params_point and getType = ex_getType
      and convertGeometry = ex_convertGeometry and node = ex_node_empty_ring and log = "[]"
      and f = "G_point ex_inside" and c = "()" and p = ex_inside and polys = "[]",
      THEN conjunct2, THEN conjunct2, THEN conjunct2, rule_format, OF conjI [OF h2 [THEN conjunct1]
        conjI [OF h2 [THEN conjunct2, THEN conjunct1] conjI [OF h2 [THEN conjunct2, THEN conjunct2] h4]]]]
  show ?thesis using h1 h2 h3 h4 t1 t2 t3 t4 d by simp
qed

subsection \<open>Parse and serialize\<close>

lemma decimal_digit: "n < 10 \<Longrightarrow> decimal n = [''0123456789'' ! n]"
  by (simp add: decimal.simps)

lemma decimal_size_max: "decimal (2 ^ 64 - 1) = ''18446744073709551615''"
  by (simp add: decimal.simps)

lemma unat_arrayLength_minus_1:
  assumes "length vs < 2 ^ 64"
  shows "unat (arrayLength (CArray vs) - 1) = (if vs = [] then 2 ^ 64 - 1 else length vs - 1)"
proof (cases vs)
  case Nil
  have "unat (- 1 :: 64 word) = 2 ^ 64 - 1"
    by (simp add: unsigned_minus_1_eq_mask mask_eq_exp_minus_1)
  then show ?thesis using Nil by simp
next
  case (Cons a as)
  then have "(of_nat (length vs) :: 64 word) - 1 = of_nat (length as)" by simp
  moreover have "length as < 2 ^ 64" using assms Cons by simp
  ultimately show ?thesis using Cons by (simp add: unat_of_nat)
qed

text \<open>
  C5. A non-empty array whose length is not 2 is rejected with one message, which holds
  the number of elements less one in decimal; for three elements it reads "found 2
  instead". The empty array is rejected too, but \<^verbatim>\<open>arrayLength(value) - 1\<close> is an
  unsigned subtraction and wraps: the message reads "found 18446744073709551615
  instead".
\<close>

theorem parse_arity_error:
  assumes "length vs \<noteq> 2" and "length vs < 2 ^ 64"
  shows "(vs \<noteq> [] \<longrightarrow> parse toGeoJSON (CArray vs) ctx =
           (None, ctx @ ['''Within' expression requires exactly one argument, but found '' @
                         decimal (length vs - 1) @ '' instead.''])) \<and>
         (length vs = 3 \<longrightarrow> parse toGeoJSON (CArray vs) ctx =
           (None, ctx @ ['''Within' expression requires exactly one argument, but found 2 instead.''])) \<and>
         (vs = [] \<longrightarrow> parse toGeoJSON (CArray vs) ctx =
           (None, ctx @ ['''Within' expression requires exactly one argument, but found 18446744073709551615 instead.'']))"
proof -
  have ne: "arrayLength (CArray vs) \<noteq> 2"
  proof
    assume "arrayLength (CArray vs) = 2"
    then have "unat (of_nat (length vs) :: 64 word) = unat (2 :: 64 word)" by simp
    then show False using assms by (simp add: unat_of_nat)
  qed
  have g: "parse toGeoJSON (CArray vs) ctx =
           (None, ctx @ ['''Within' expression requires exactly one argument, but found '' @
                         decimal (if vs = [] then 2 ^ 64 - 1 else length vs - 1) @ '' instead.''])"
    using ne unat_arrayLength_minus_1 [OF assms(2)]
    by (simp add: parse_def ctx_error_def del: arrayLength.simps)
  have a: "parse toGeoJSON (CArray vs) ctx =
           (None, ctx @ ['''Within' expression requires exactly one argument, but found '' @
                         decimal (length vs - 1) @ '' instead.''])"
    if "vs \<noteq> []"
    using g that by simp
  have b: "parse toGeoJSON (CArray vs) ctx =
           (None, ctx @ ['''Within' expression requires exactly one argument, but found 2 instead.''])"
    if "length vs = 3"
  proof -
    from that have "vs \<noteq> []" by auto
    then show ?thesis using g that by (simp add: decimal_digit)
  qed
  have c: "parse toGeoJSON (CArray vs) ctx =
           (None, ctx @ ['''Within' expression requires exactly one argument, but found 18446744073709551615 instead.''])"
    if "vs = []"
    using g that decimal_size_max by simp
  from a b c show ?thesis by blast
qed

theorem parse_arity_error_witness:
  "length [CString ''within'', ex_polygon_value, ex_polygon_value] \<noteq> 2 \<and>
   length [CString ''within'', ex_polygon_value, ex_polygon_value] < 2 ^ 64 \<and>
   parse ex_toGeoJSON (CArray [CString ''within'', ex_polygon_value, ex_polygon_value]) [] =
     (None, ['''Within' expression requires exactly one argument, but found 2 instead.'']) \<and>
   length ([] :: Convertible list) \<noteq> 2 \<and> length ([] :: Convertible list) < 2 ^ 64 \<and>
   parse ex_toGeoJSON (CArray []) [] =
     (None, ['''Within' expression requires exactly one argument, but found 18446744073709551615 instead.''])"
proof -
  have h1: "length [CString ''within'', ex_polygon_value, ex_polygon_value] \<noteq> 2" by simp
  have h2: "length [CString ''within'', ex_polygon_value, ex_polygon_value] < 2 ^ 64" by simp
  have h3: "length [CString ''within'', ex_polygon_value, ex_polygon_value] = 3" by simp
  have k1: "length ([] :: Convertible list) \<noteq> 2" by simp
  have k2: "length ([] :: Convertible list) < 2 ^ 64" by simp
  note t = parse_arity_error [OF h1 h2, of ex_toGeoJSON "[]", THEN conjunct2, THEN conjunct1,
      rule_format, OF h3]
  note u = parse_arity_error [OF k1 k2, of ex_toGeoJSON "[]", THEN conjunct2, THEN conjunct2,
      rule_format, OF refl]
  show ?thesis using h1 h2 t u by simp
qed

text \<open>
  C6. For a two-element array: when the second element is not an object, or has no
  member "type", or its member "type" is not the string "Polygon", no node is returned
  and exactly the one fixed message is reported; when it is an object of type "Polygon"
  and the conversion returns a GeoJSON and an empty error message, the node that owns
  that GeoJSON is returned and nothing is reported.
\<close>

theorem parse_polygon_value:
  "(\<not> isObject v2 \<or> objectMember v2 ''type'' = None \<or>
      (\<exists>geometryType. objectMember v2 ''type'' = Some geometryType \<and>
                        toString geometryType \<noteq> Some ''Polygon'')
    \<longrightarrow> parse toGeoJSON (CArray [v1, v2]) ctx =
          (None, ctx @ ['''Within' expression requires valid geojson source that contains polygon geometry type.''])) \<and>
   (isObject v2 \<and> objectMember v2 ''type'' = Some geometryType \<and>
      toString geometryType = Some ''Polygon'' \<and> toGeoJSON v2 = (Some geojson, \<lparr>message = []\<rparr>)
    \<longrightarrow> parse toGeoJSON (CArray [v1, v2]) ctx = (Some \<lparr>geoJSONSource = geojson\<rparr>, ctx))"
  by (auto simp: parse_def parseValue_def ctx_error_def requires_polygon_def
           split: option.splits)

theorem parse_polygon_value_witness:
  "\<not> isObject (CString ''Polygon'') \<and>
   parse ex_toGeoJSON (CArray [CString ''within'', CString ''Polygon'']) [] =
     (None, ['''Within' expression requires valid geojson source that contains polygon geometry type.'']) \<and>
   isObject ex_polygon_value \<and>
   objectMember ex_polygon_value ''type'' = Some (CString ''Polygon'') \<and>
   toString (CString ''Polygon'') = Some ''Polygon'' \<and>
   ex_toGeoJSON ex_polygon_value = (Some (GJ_geometry (G_polygon [])), \<lparr>message = []\<rparr>) \<and>
   parse ex_toGeoJSON (CArray [CString ''within'', ex_polygon_value]) [] =
     (Some \<lparr>geoJSONSource = GJ_geometry (G_polygon [])\<rparr>, [])"
proof -
  have h1: "\<not> isObject (CString ''Polygon'')" by simp
  have h2: "isObject ex_polygon_value \<and>
      objectMember ex_polygon_value ''type'' = Some (CString ''Polygon'') \<and>
      toString (CString ''Polygon'') = Some ''Polygon'' \<and>
      ex_toGeoJSON ex_polygon_value = (Some (GJ_geometry (G_polygon [])), \<lparr>message = []\<rparr>)"
    by (simp add: ex_polygon_value_def ex_toGeoJSON_def)
  note a = parse_polygon_value [where ?v2.0 = "CString ''Polygon''" and toGeoJSON = ex_toGeoJSON
      and ?v1.0 = "CString ''within''" and ctx = "[]",
      THEN conjunct1, rule_format, OF disjI1, OF h1]
  note b = parse_polygon_value [where ?v2.0 = ex_polygon_value
      and geometryType = "CString ''Polygon''" and toGeoJSON = ex_toGeoJSON
      and geojson = "GJ_geometry (G_polygon [])" and ?v1.0 = "CString ''within''"
      and ctx = "[]", THEN conjunct2, rule_format, OF h2]
  show ?thesis using h1 h2 a b by simp
qed

text \<open>
  C7. When the second element is an object of type "Polygon" and the conversion fails,
  the converter's message is not the only error reported: \<^verbatim>\<open>parseValue\<close> reports it
  and goes on to the end of the function, which reports the fixed message as well.
\<close>

theorem parse_conversion_error_counterexample:
  "isObject ex_polygon_value \<and>
   objectMember ex_polygon_value ''type'' = Some (CString ''Polygon'') \<and>
   ex_failing_toGeoJSON ex_polygon_value = (None, \<lparr>message = ''coordinates missing''\<rparr>) \<and>
   parse ex_failing_toGeoJSON (CArray [CString ''within'', ex_polygon_value]) [] \<noteq>
     (None, [''coordinates missing''])"
  by (simp add: parse_def parseValue_def ctx_error_def ex_polygon_value_def ex_failing_toGeoJSON_def)

text \<open>
  C7, as the code has it: when the conversion returns no GeoJSON or a non-empty message,
  no node is returned and two errors are reported, the converter's message verbatim and
  after it the fixed message for a missing polygon.
\<close>

theorem parse_conversion_error:
  assumes "isObject v2" and "objectMember v2 ''type'' = Some geometryType"
    and "toString geometryType = Some ''Polygon''"
    and "toGeoJSON v2 = (geojson, error)"
    and "geojson = None \<or> message error \<noteq> []"
  shows "parse toGeoJSON (CArray [v1, v2]) ctx =
           (None, ctx @ [message error,
              '''Within' expression requires valid geojson source that contains polygon geometry type.''])"
  using assms
  by (auto simp: parse_def parseValue_def ctx_error_def requires_polygon_def)

theorem parse_conversion_error_witness:
  "isObject ex_polygon_value \<and>
   objectMember ex_polygon_value ''type'' = Some (CString ''Polygon'') \<and>
   toString (CString ''Polygon'') = Some ''Polygon'' \<and>
   ex_failing_toGeoJSON ex_polygon_value = (None, \<lparr>message = ''coordinates missing''\<rparr>) \<and>
   parse ex_failing_toGeoJSON (CArray [CString ''within'', ex_polygon_value]) [] =
     (None, [''coordinates missing'',
        '''Within' expression requires valid geojson source that contains polygon geometry type.''])"
proof -
  have h1: "isObject ex_polygon_value" by (simp add: ex_polygon_value_def)
  have h2: "objectMember ex_polygon_value ''type'' = Some (CString ''Polygon'')"
    by (simp add: ex_polygon_value_def)
  have h3: "toString (CString ''Polygon'') = Some ''Polygon''" by simp
  have h4: "ex_failing_toGeoJSON ex_polygon_value = (None, \<lparr>message = ''coordinates missing''\<rparr>)"
    by (simp add: ex_failing_toGeoJSON_def)
  have h5: "(None :: GeoJSON option) = None \<or> message \<lparr>message = ''coordinates missing''\<rparr> \<noteq> []"
    by simp
  show ?thesis
    using h1 h2 h3 h4 parse_conversion_error [where toGeoJSON = ex_failing_toGeoJSON
        and ?v1.0 = "CString ''within''" and ctx = "[]", OF h1 h2 h3 h4 h5]
    by simp
qed

text \<open>
  C8. The value that \<^verbatim>\<open>serialize\<close> returns is never parsed back: its second element is
  the GeoJSON text, a string, and \<^verbatim>\<open>parseValue\<close> accepts an object only. Parsing it
  returns no node and reports the message for a missing polygon.
\<close>

theorem parse_serialize_fails:
  "parse toGeoJSON (serialize stringify node) ctx =
     (None, ctx @ ['''Within' expression requires valid geojson source that contains polygon geometry type.''])"
  by (simp add: parse_def serialize_def parseValue_def ctx_error_def requires_polygon_def)

text \<open>
  C10. A value that is not an array is rejected with the errors of the parsing context
  unchanged, while every rejected array adds at least one error to them.
\<close>

theorem parse_non_array_silent:
  "(\<not> isArray v \<longrightarrow> parse toGeoJSON v ctx = (None, ctx)) \<and>
   (isArray v \<and> fst (parse toGeoJSON v ctx) = None \<longrightarrow>
      length ctx < length (snd (parse toGeoJSON v ctx)))"
  by (auto simp: parse_def parseValue_def ctx_error_def split: option.splits prod.splits if_splits)

theorem parse_non_array_silent_witness:
  "\<not> isArray (CString ''within'') \<and>
   parse ex_toGeoJSON (CString ''within'') [] = (None, []) \<and>
   isArray (CArray []) \<and> fst (parse ex_toGeoJSON (CArray []) []) = None \<and>
   length ([] :: ParsingContext) < length (snd (parse ex_toGeoJSON (CArray []) []))"
  using parse_non_array_silent [of "CString ''within''" ex_toGeoJSON "[]"]
    parse_non_array_silent [of "CArray []" ex_toGeoJSON "[]"]
  by (simp add: parse_def)

end
